theory Spec2Isabelle
  imports Complex_Main "HOL-Library.FSet" "HOL-Library.Stream" "HOL-Library.Word"
begin

unbundle bit_operations_syntax

section \<open>Textually similar documents: shingling, min-hashing, signature comparison\<close>

text \<open>
  A shallow embedding of \<^verbatim>\<open>document_similarity.py\<close>. Python integers are \<open>int\<close>, Python
  sets are finite sets (\<open>fset\<close>), Python lists and NumPy vectors are lists, a quotient of two
  Python integers (\<^verbatim>\<open>/\<close>) is the exact rational it denotes, and every exception the code
  can raise is a value of \<open>error\<close> returned on the left of a sum.
\<close>

datatype error = AssertionError | ZeroDivisionError | IndexError | TypeError | ValueError

subsection \<open>The checksum \<^verbatim>\<open>binascii.crc32\<close>\<close>

text \<open>
  The library function \<^verbatim>\<open>binascii.crc32\<close> is the CRC-32 of IEEE 802.3: reflected
  polynomial \<open>0xEDB88320\<close>, initial value and final complement \<open>0xFFFFFFFF\<close>. It is
  given here bit by bit. \<open>encode\<close> is \<^verbatim>\<open>str.encode\<close> on texts whose characters are
  single bytes.
\<close>

definition crc_step :: "32 word \<Rightarrow> 32 word" where
  "crc_step c = (if bit c 0 then drop_bit 1 c XOR 0xEDB88320 else drop_bit 1 c)"

definition crc_byte :: "32 word \<Rightarrow> 8 word \<Rightarrow> 32 word" where
  "crc_byte c b = (crc_step ^^ 8) (c XOR ucast b)"

definition crc32 :: "8 word list \<Rightarrow> int" where
  "crc32 bs = uint (foldl crc_byte 0xFFFFFFFF bs XOR 0xFFFFFFFF)"

definition encode :: "string \<Rightarrow> 8 word list" where
  "encode s = map (\<lambda>c. of_nat (of_char c)) s"

definition crc32_encode :: "string \<Rightarrow> int" where
  "crc32_encode w = crc32 (encode w)"

subsection \<open>\<^verbatim>\<open>shingling\<close>\<close>

text \<open>
  Python's slice \<^verbatim>\<open>s[a:b]\<close>: a negative bound counts from the end, and both bounds are
  clipped to the string.
\<close>

definition py_slice :: "'c list \<Rightarrow> int \<Rightarrow> int \<Rightarrow> 'c list" where
  "py_slice s a b =
     (let n = int (length s);
          lo = (if a < 0 then max 0 (a + n) else min a n);
          hi = (if b < 0 then max 0 (b + n) else min b n)
      in take (nat (hi - lo)) (drop (nat lo) s))"

text \<open>
  The body of the loop \<^verbatim>\<open>for i in range(len(s) - k + 1)\<close>, run over the list of the
  indices still to visit. The first argument stands for
  \<^verbatim>\<open>lambda w: binascii.crc32(w.encode())\<close>, so that the text may be over any alphabet;
  \<open>crc32_encode\<close> is its instance for single-byte characters.
\<close>

fun shingling_loop :: "('c list \<Rightarrow> int) \<Rightarrow> 'c list \<Rightarrow> int \<Rightarrow> nat list \<Rightarrow> int fset \<Rightarrow> int fset" where
  "shingling_loop crc s k [] h_shingles_set = h_shingles_set"
| "shingling_loop crc s k (i # rest) h_shingles_set =
     (let hashed_shingle = crc (py_slice s (int i) (int i + k)) AND 0xffffffff
      in shingling_loop crc s k rest
           (if hashed_shingle |\<notin>| h_shingles_set
            then finsert hashed_shingle h_shingles_set
            else h_shingles_set))"

definition shingling :: "('c list \<Rightarrow> int) \<Rightarrow> 'c list \<Rightarrow> int \<Rightarrow> int fset" where
  "shingling crc s k = shingling_loop crc s k [0 ..< nat (int (length s) - k + 1)] {||}"

subsection \<open>\<^verbatim>\<open>compare_sets\<close>\<close>

text \<open>
  \<^verbatim>\<open>len(set1.intersection(set2)) / len(set1.union(set2))\<close>: the division of two Python
  integers raises \<^verbatim>\<open>ZeroDivisionError\<close> when the divisor is \<open>0\<close>.
\<close>

definition py_truediv :: "nat \<Rightarrow> nat \<Rightarrow> error + rat" where
  "py_truediv a b = (if b = 0 then Inl ZeroDivisionError else Inr (of_nat a / of_nat b))"

definition compare_sets :: "int fset \<Rightarrow> int fset \<Rightarrow> error + rat" where
  "compare_sets set1 set2 = py_truediv (fcard (set1 |\<inter>| set2)) (fcard (set1 |\<union>| set2))"

subsection \<open>\<^verbatim>\<open>generate_random_coefficient\<close>\<close>

text \<open>
  The generator reads the process-wide random source. The model takes the source as the
  stream of the values that the successive calls \<^verbatim>\<open>random.randint(0, max_hash_value)\<close>
  return, and gives back the rest of the stream with the list. \<^verbatim>\<open>randint\<close> raises
  \<^verbatim>\<open>ValueError\<close> on an empty range.

  The loop \<^verbatim>\<open>while random_num in tmp: random_num = random.randint(0, max_hash_value)\<close>
  has no bound, so it is a partial function: \<open>None\<close> is "does not return".
\<close>

partial_function (option) resample :: "int fset \<Rightarrow> int \<Rightarrow> int stream \<Rightarrow> (int \<times> int stream) option" where
  "resample tmp random_num rng =
     (if random_num |\<in>| tmp then resample tmp (shd rng) (stl rng)
      else Some (random_num, rng))"

text \<open>
  The loop \<^verbatim>\<open>for i in range(no_of_hash_functions)\<close>, by the number of rounds still to
  run. In the \<^verbatim>\<open>else\<close> branch the value found by resampling is appended to the list,
  and \<open>tmp\<close> is left as it was.
\<close>

fun generate_loop :: "int \<Rightarrow> nat \<Rightarrow> int fset \<Rightarrow> int list \<Rightarrow> int stream
    \<Rightarrow> (error + int list \<times> int stream) option" where
  "generate_loop max_hash_value 0 tmp random_numbers_list rng = Some (Inr (random_numbers_list, rng))"
| "generate_loop max_hash_value (Suc n) tmp random_numbers_list rng =
     (if max_hash_value < 0 then Some (Inl ValueError)
      else
        let random_num = shd rng; rng1 = stl rng in
        if random_num |\<notin>| tmp
        then generate_loop max_hash_value n (finsert random_num tmp)
               (random_numbers_list @ [random_num]) rng1
        else
          (case resample tmp random_num rng1 of
             None \<Rightarrow> None
           | Some (random_num', rng2) \<Rightarrow>
               generate_loop max_hash_value n tmp (random_numbers_list @ [random_num']) rng2))"

definition generate_random_coefficient :: "int \<Rightarrow> int \<Rightarrow> int stream
    \<Rightarrow> (error + int list \<times> int stream) option" where
  "generate_random_coefficient max_hash_value no_of_hash_functions rng =
     generate_loop max_hash_value (nat no_of_hash_functions) {||} [] rng"

subsection \<open>\<^verbatim>\<open>min_hashing\<close>\<close>

text \<open>
  The module-level lists \<^verbatim>\<open>random_coefficients_a\<close> and \<^verbatim>\<open>random_coefficients_b\<close> that
  the function reads are its first two arguments. A signature component is \<open>None\<close>
  (Python's \<^verbatim>\<open>None\<close>) or \<open>Some v\<close>.

  The inner loop \<^verbatim>\<open>for hash_shingle in hashed_shingle_set\<close>, over the elements in the
  order the set yields them. Indexing a list past its end raises \<^verbatim>\<open>IndexError\<close>, and
  \<^verbatim>\<open>%\<close> by \<open>0\<close> raises \<^verbatim>\<open>ZeroDivisionError\<close>; for a divisor other than \<open>0\<close>, Python's
  \<^verbatim>\<open>%\<close> on integers is \<open>mod\<close>.
\<close>

fun min_loop :: "int list \<Rightarrow> int list \<Rightarrow> nat \<Rightarrow> int \<Rightarrow> int list \<Rightarrow> int option \<Rightarrow> error + int option" where
  "min_loop A B i max_hash_value [] min_hash_value = Inr min_hash_value"
| "min_loop A B i max_hash_value (hash_shingle # rest) min_hash_value =
     (if length A \<le> i then Inl IndexError
      else if length B \<le> i then Inl IndexError
      else if max_hash_value = 0 then Inl ZeroDivisionError
      else
        let hash_value = (A ! i * hash_shingle + B ! i) mod max_hash_value in
        min_loop A B i max_hash_value rest
          (case min_hash_value of
             None \<Rightarrow> Some hash_value
           | Some m \<Rightarrow> if hash_value < m then Some hash_value else Some m))"

text \<open>
  The outer loop \<^verbatim>\<open>for i in range(no_of_hash_functions)\<close>. Python leaves the iteration
  order of a set open; the model iterates in ascending order, and \<open>min_loop_order\<close>
  below shows that the order does not matter.
\<close>

fun signatures_loop :: "int list \<Rightarrow> int list \<Rightarrow> int fset \<Rightarrow> int \<Rightarrow> nat list \<Rightarrow> int option list
    \<Rightarrow> error + int option list" where
  "signatures_loop A B hashed_shingle_set max_hash_value [] signatures_list = Inr signatures_list"
| "signatures_loop A B hashed_shingle_set max_hash_value (i # rest) signatures_list =
     (case min_loop A B i max_hash_value (sorted_list_of_fset hashed_shingle_set) None of
        Inl e \<Rightarrow> Inl e
      | Inr min_hash_value \<Rightarrow>
          signatures_loop A B hashed_shingle_set max_hash_value rest
            (signatures_list @ [min_hash_value]))"

definition min_hashing :: "int list \<Rightarrow> int list \<Rightarrow> int fset \<Rightarrow> int \<Rightarrow> int \<Rightarrow> error + int option list" where
  "min_hashing A B hashed_shingle_set no_of_hash_functions max_hash_value =
     signatures_loop A B hashed_shingle_set max_hash_value [0 ..< nat no_of_hash_functions] []"

subsection \<open>\<^verbatim>\<open>compare_signatures\<close>\<close>

text \<open>
  \<^verbatim>\<open>np.intersect1d\<close> returns the sorted, unique values that are in both vectors. It sorts
  each vector and then their concatenation; ordering \<^verbatim>\<open>None\<close> against any value raises
  \<^verbatim>\<open>TypeError\<close>, which happens as soon as a \<^verbatim>\<open>None\<close> is among two or more elements to
  sort. The integers of a vector are taken as exact, as NumPy has them while they fit 64
  bits; the values below the modulus \<open>2^32 - 1\<close> of the program do.
\<close>

definition intersect1d :: "int option list \<Rightarrow> int option list \<Rightarrow> error + int list" where
  "intersect1d ar1 ar2 =
     (if None \<in> set ar1 \<union> set ar2
      then (if 2 \<le> length ar1 + length ar2 then Inl TypeError else Inr [])
      else Inr (sorted_list_of_set (the ` set ar1 \<inter> the ` set ar2)))"

text \<open>
  The \<^verbatim>\<open>assert\<close> on the lengths comes first (assertions are taken as enabled, as they are
  unless the interpreter runs with \<^verbatim>\<open>-O\<close>); then the number of common values is divided by
  the length of the first signature.
\<close>

definition compare_signatures :: "int option list \<Rightarrow> int option list \<Rightarrow> error + rat" where
  "compare_signatures minhash_signatures1 minhash_signatures2 =
     (if length minhash_signatures1 \<noteq> length minhash_signatures2 then Inl AssertionError
      else
        (case intersect1d minhash_signatures1 minhash_signatures2 of
           Inl e \<Rightarrow> Inl e
         | Inr common \<Rightarrow> py_truediv (length common) (length minhash_signatures1)))"

text \<open>
  The estimator in the words of the specification: the fraction of positions at which the
  two signatures agree, \<open>count(sig1[i] == sig2[i]) / H\<close>.
\<close>

definition positional_agreement :: "int option list \<Rightarrow> int option list \<Rightarrow> rat" where
  "positional_agreement sig1 sig2 =
     of_nat (length (filter (\<lambda>i. sig1 ! i = sig2 ! i) [0 ..< length sig1])) / of_nat (length sig1)"

section \<open>Properties\<close>

subsection \<open>Concrete checksums\<close>

lemma funpow8: "(f ^^ 8) x = f (f (f (f (f (f (f (f x)))))))"
  by (simp add: eval_nat_numeral)

lemma crc32_aaaaa: "crc32_encode ''aaaaa'' = 4004287417"
  by (simp add: crc32_encode_def crc32_def encode_def crc_byte_def crc_step_def funpow8)

lemma upt3: "[0..<3] = [0, 1, 2]"
  by (simp add: upt_rec)

lemma shingling_aaaaaaa: "shingling crc32_encode ''aaaaaaa'' 5 = {|4004287417|}"
  by (simp add: shingling_def py_slice_def upt3 crc32_aaaaa)

subsection \<open>The shingle extractor\<close>

lemma shingling_loop_eq:
  "shingling_loop crc s k idxs S =
     S |\<union>| ((\<lambda>i. crc (py_slice s (int i) (int i + k)) AND 0xffffffff) |`| fset_of_list idxs)"
  by (induction idxs arbitrary: S) (auto simp: Let_def)

lemma shingling_image:
  "shingling crc s k =
     (\<lambda>i. crc (py_slice s (int i) (int i + k)) AND 0xffffffff)
       |`| fset_of_list [0 ..< nat (int (length s) - k + 1)]"
  by (simp add: shingling_def shingling_loop_eq)

lemma fcard_fimage_list_le: "fcard (f |`| fset_of_list xs) \<le> length xs"
proof -
  have "card (f ` set xs) \<le> card (set xs)"
    by (rule card_image_le) simp
  also have "\<dots> \<le> length xs"
    by (rule card_length)
  finally show ?thesis
    by (simp add: fcard.rep_eq fset_of_list.rep_eq)
qed

text \<open>
  C9: for every string \<open>s\<close> and shingle length \<open>k\<close> (in particular every \<open>k \<ge> 1\<close>) the
  shingle extractor returns a set of size at most \<open>max(0, len(s) - k + 1)\<close>; when
  \<open>len(s) < k\<close> the result is the empty set, not an error; and the result is the set of
  the hashes of the windows, so that a repeated substring contributes one element.
\<close>

theorem shingling_size:
  "int (fcard (shingling crc s k)) \<le> max 0 (int (length s) - k + 1)
   \<and> (int (length s) < k \<longrightarrow> shingling crc s k = {||})
   \<and> shingling crc s k =
       (\<lambda>i. crc (py_slice s (int i) (int i + k)) AND 0xffffffff)
         |`| fset_of_list [0 ..< nat (int (length s) - k + 1)]"
proof (intro conjI impI)
  have "fcard (shingling crc s k) \<le> length [0 ..< nat (int (length s) - k + 1)]"
    unfolding shingling_image by (rule fcard_fimage_list_le)
  then show "int (fcard (shingling crc s k)) \<le> max 0 (int (length s) - k + 1)"
    by simp
next
  assume "int (length s) < k"
  then show "shingling crc s k = {||}"
    by (simp add: shingling_def)
next
  show "shingling crc s k =
       (\<lambda>i. crc (py_slice s (int i) (int i + k)) AND 0xffffffff)
         |`| fset_of_list [0 ..< nat (int (length s) - k + 1)]"
    by (rule shingling_image)
qed

theorem shingling_size_witness:
  "int (length ''ab'') < 5 \<and> shingling crc32_encode ''ab'' 5 = {||}
   \<and> fcard (shingling crc32_encode ''aaaaaaa'' 5) = 1"
  using shingling_size [of crc32_encode "''ab''" 5]
  by (simp add: shingling_aaaaaaa fcard_finsert_if)

subsection \<open>The exact similarity\<close>

text \<open>
  C5, as the code has it: two empty shingle sets are not resolved to a value. The division
  raises \<^verbatim>\<open>ZeroDivisionError\<close> exactly when both sets are empty, and in every other case
  the result is \<open>|intersection| / |union|\<close>.
\<close>

theorem compare_sets_cases:
  "compare_sets set1 set2 =
     (if set1 = {||} \<and> set2 = {||} then Inl ZeroDivisionError
      else Inr (of_nat (fcard (set1 |\<inter>| set2)) / of_nat (fcard (set1 |\<union>| set2))))"
  by (auto simp: compare_sets_def py_truediv_def)

theorem compare_sets_cases_witness:
  "compare_sets {|1, 2|} {|2, 3|} = Inr (1 / 3)"
  using compare_sets_cases [of "{|1, 2|}" "{|2, 3|}"]
  by (simp add: fcard_finsert_if)

text \<open>The claim C5 itself fails on two empty sets: the call raises.\<close>

theorem compare_sets_empty_raises:
  "compare_sets {||} {||} = Inl ZeroDivisionError"
  by (simp add: compare_sets_def py_truediv_def)

subsection \<open>The signature builder\<close>

lemma Min_insert_min:
  fixes a b :: int
  assumes "finite S"
  shows "Min (insert (min a b) S) = Min (insert a (insert b S))"
proof (cases "S = {}")
  case True
  then show ?thesis by (simp add: min.commute)
next
  case False
  then show ?thesis
    using assms by (simp add: min.assoc)
qed

lemma min_loop_Some:
  assumes "i < length A" "i < length B" "M \<noteq> 0"
  shows "min_loop A B i M xs (Some m) =
     Inr (Some (Min (insert m ((\<lambda>x. (A ! i * x + B ! i) mod M) ` set xs))))"
  using assms
proof (induction xs arbitrary: m)
  case Nil
  then show ?case by simp
next
  case (Cons x xs)
  let ?h = "\<lambda>x. (A ! i * x + B ! i) mod M"
  have upd: "(if ?h x < m then Some (?h x) else Some m) = Some (min (?h x) m)"
    by (simp add: min_def)
  have "min_loop A B i M (x # xs) (Some m) = min_loop A B i M xs (Some (min (?h x) m))"
    using Cons.prems by (simp add: Let_def upd)
  also have "\<dots> = Inr (Some (Min (insert (min (?h x) m) (?h ` set xs))))"
    using Cons by simp
  also have "Min (insert (min (?h x) m) (?h ` set xs)) = Min (insert m (?h ` set (x # xs)))"
    by (simp add: Min_insert_min insert_commute)
  finally show ?case .
qed

lemma min_loop_ok:
  assumes "i < length A" "i < length B" "M \<noteq> 0" "xs \<noteq> []"
  shows "min_loop A B i M xs None =
     Inr (Some (Min ((\<lambda>x. (A ! i * x + B ! i) mod M) ` set xs)))"
proof (cases xs)
  case Nil
  then show ?thesis using assms by simp
next
  case (Cons x rest)
  then show ?thesis
    using assms by (simp add: Let_def min_loop_Some)
qed

lemma min_loop_error:
  "xs \<noteq> [] \<Longrightarrow> \<not> (i < length A \<and> i < length B \<and> M \<noteq> 0) \<Longrightarrow>
   min_loop A B i M xs acc =
     Inl (if length A \<le> i \<or> length B \<le> i then IndexError else ZeroDivisionError)"
  by (cases xs) auto

text \<open>
  The inner loop gives the same result for every order in which the set may yield its
  elements.
\<close>

lemma min_loop_order:
  assumes "set xs = set ys"
  shows "min_loop A B i M xs None = min_loop A B i M ys None"
proof (cases "i < length A \<and> i < length B \<and> M \<noteq> 0")
  case True
  show ?thesis
  proof (cases "xs = []")
    case empty: True
    then show ?thesis using assms by simp
  next
    case nonempty: False
    then have "ys \<noteq> []" using assms by auto
    then show ?thesis
      using nonempty True assms by (simp add: min_loop_ok)
  qed
next
  case False
  show ?thesis
  proof (cases "xs = []")
    case True
    then show ?thesis using assms by simp
  next
    case nonempty: False
    then have "ys \<noteq> []" using assms by auto
    then show ?thesis
      using nonempty False by (simp add: min_loop_error)
  qed
qed

lemma sorted_list_of_fset_Nil: "sorted_list_of_fset S = [] \<longleftrightarrow> S = {||}"
  by (metis sorted_list_of_fset_simps(2) fset_of_list_simps(1) sorted_list_of_fset_simps(1) set_empty bot_fset.rep_eq)

lemma signatures_loop_empty:
  "signatures_loop A B {||} M idxs sigs = Inr (sigs @ replicate (length idxs) None)"
proof (induction idxs arbitrary: sigs)
  case Nil
  then show ?case by simp
next
  case (Cons i idxs)
  have "sorted_list_of_fset ({||} :: int fset) = []"
    by (simp add: sorted_list_of_fset_Nil)
  then show ?case
    using Cons by (simp add: replicate_app_Cons_same)
qed

lemma signatures_loop_ok:
  assumes "S \<noteq> {||}" "M \<noteq> 0" "\<forall>i \<in> set idxs. i < length A \<and> i < length B"
  shows "signatures_loop A B S M idxs sigs =
     Inr (sigs @ map (\<lambda>i. Some (Min ((\<lambda>x. (A ! i * x + B ! i) mod M) ` fset S))) idxs)"
  using assms
proof (induction idxs arbitrary: sigs)
  case Nil
  then show ?case by simp
next
  case (Cons i idxs)
  have ne: "sorted_list_of_fset S \<noteq> []"
    using Cons.prems(1) by (simp add: sorted_list_of_fset_Nil)
  have "min_loop A B i M (sorted_list_of_fset S) None =
      Inr (Some (Min ((\<lambda>x. (A ! i * x + B ! i) mod M) ` fset S)))"
    using Cons.prems ne by (simp add: min_loop_ok)
  then show ?case
    using Cons by simp
qed

text \<open>
  C7: for every non-empty shingle set, every hash family \<open>(A, B)\<close> of at least \<open>H\<close>
  coefficients each and every modulus \<open>M\<close> (other than \<open>0\<close>), the signature builder returns
  a signature of length \<open>H\<close> whose component \<open>i\<close> is the minimum over the shingles \<open>x\<close> of
  \<open>(A[i] * x + B[i]) mod M\<close>, in the order of the hash family.
\<close>

theorem min_hashing_components:
  assumes "S \<noteq> {||}" and "M \<noteq> 0" and "nat H \<le> length A" and "nat H \<le> length B"
  shows "\<exists>sig. min_hashing A B S H M = Inr sig \<and> length sig = nat H
           \<and> (\<forall>i < nat H. sig ! i = Some (Min ((\<lambda>x. (A ! i * x + B ! i) mod M) ` fset S)))"
proof -
  have "\<forall>i \<in> set [0 ..< nat H]. i < length A \<and> i < length B"
    using assms(3,4) by auto
  then have "min_hashing A B S H M =
      Inr (map (\<lambda>i. Some (Min ((\<lambda>x. (A ! i * x + B ! i) mod M) ` fset S))) [0 ..< nat H])"
    unfolding min_hashing_def using assms(1,2) by (simp add: signatures_loop_ok)
  then show ?thesis by simp
qed

theorem min_hashing_components_witness:
  "{|1, 2|} \<noteq> ({||} :: int fset) \<and> (4294967295 :: int) \<noteq> 0
   \<and> nat 2 \<le> length [1, 4294967294 :: int] \<and> nat 2 \<le> length [0, 3 :: int]
   \<and> min_hashing [1, 4294967294] [0, 3] {|1, 2|} 2 4294967295 = Inr [Some 1, Some 1]"
proof -
  obtain sig where sig: "min_hashing [1, 4294967294] [0, 3] {|1, 2|} 2 4294967295 = Inr sig"
      "length sig = nat 2"
      "\<forall>i < nat 2. sig ! i =
         Some (Min ((\<lambda>x. ([1, 4294967294] ! i * x + [0, 3] ! i) mod 4294967295) ` fset {|1, 2|}))"
    using min_hashing_components [of "{|1, 2|}" 4294967295 2 "[1, 4294967294]" "[0, 3]"]
    by auto
  have "sig ! 0 = Some 1" "sig ! 1 = Some 1"
    using sig(3) by simp_all
  then have "sig = [Some 1, Some 1]"
    using sig(2) by (auto simp: list_eq_iff_nth_eq less_Suc_eq numeral_2_eq_2)
  then show ?thesis
    using sig(1) by simp
qed

lemma signatures_loop_error:
  assumes "S \<noteq> {||}" "\<exists>i \<in> set idxs. \<not> (i < length A \<and> i < length B \<and> M \<noteq> 0)"
  shows "signatures_loop A B S M idxs sigs = Inl IndexError
       \<or> signatures_loop A B S M idxs sigs = Inl ZeroDivisionError"
  using assms(2)
proof (induction idxs arbitrary: sigs)
  case Nil
  then show ?case by simp
next
  case (Cons i idxs)
  have ne: "sorted_list_of_fset S \<noteq> []"
    using assms(1) by (simp add: sorted_list_of_fset_Nil)
  show ?case
  proof (cases "i < length A \<and> i < length B \<and> M \<noteq> 0")
    case True
    then have ok: "min_loop A B i M (sorted_list_of_fset S) None =
        Inr (Some (Min ((\<lambda>x. (A ! i * x + B ! i) mod M) ` fset S)))"
      using ne by (simp add: min_loop_ok)
    have "\<exists>j \<in> set idxs. \<not> (j < length A \<and> j < length B \<and> M \<noteq> 0)"
      using Cons.prems True by auto
    then show ?thesis
      using Cons.IH ok by simp
  next
    case False
    then have "min_loop A B i M (sorted_list_of_fset S) None =
        Inl (if length A \<le> i \<or> length B \<le> i then IndexError else ZeroDivisionError)"
      using ne by (rule min_loop_error [rotated])
    then show ?thesis by simp
  qed
qed

text \<open>
  C10, as the code has it: the signature builder returns a vector of exactly \<open>H\<close> components
  (\<open>nat H\<close> is \<open>H\<close> for \<open>H \<ge> 0\<close>) when the shingle set is empty, or \<open>H\<close> is \<open>0\<close>, or the
  hash family holds at least \<open>H\<close> coefficients in each list and the modulus is not \<open>0\<close>. In
  every other case it returns no vector: it raises \<^verbatim>\<open>IndexError\<close> or
  \<^verbatim>\<open>ZeroDivisionError\<close>.
\<close>

theorem min_hashing_length:
  "(S = {||} \<or> nat H = 0 \<or> (M \<noteq> 0 \<and> nat H \<le> length A \<and> nat H \<le> length B)
      \<longrightarrow> (\<exists>sig. min_hashing A B S H M = Inr sig \<and> length sig = nat H))
   \<and> (\<not> (S = {||} \<or> nat H = 0 \<or> (M \<noteq> 0 \<and> nat H \<le> length A \<and> nat H \<le> length B))
      \<longrightarrow> min_hashing A B S H M = Inl IndexError
        \<or> min_hashing A B S H M = Inl ZeroDivisionError)"
proof (intro conjI impI)
  assume run: "S = {||} \<or> nat H = 0 \<or> (M \<noteq> 0 \<and> nat H \<le> length A \<and> nat H \<le> length B)"
  show "\<exists>sig. min_hashing A B S H M = Inr sig \<and> length sig = nat H"
  proof (cases "S = {||}")
    case True
    then show ?thesis
      by (simp add: min_hashing_def signatures_loop_empty)
  next
    case nonempty: False
    show ?thesis
    proof (cases "nat H = 0")
      case True
      then show ?thesis by (simp add: min_hashing_def)
    next
      case False
      then have "\<forall>i \<in> set [0 ..< nat H]. i < length A \<and> i < length B"
        using run nonempty by auto
      moreover have "M \<noteq> 0" using run nonempty False by auto
      ultimately show ?thesis
        unfolding min_hashing_def using nonempty by (simp add: signatures_loop_ok)
    qed
  qed
next
  assume bad: "\<not> (S = {||} \<or> nat H = 0 \<or> (M \<noteq> 0 \<and> nat H \<le> length A \<and> nat H \<le> length B))"
  then have ne: "S \<noteq> {||}" and pos: "0 < nat H" by auto
  have "\<exists>i \<in> set [0 ..< nat H]. \<not> (i < length A \<and> i < length B \<and> M \<noteq> 0)"
  proof (cases "M = 0")
    case True
    have "0 \<in> set [0 ..< nat H]" using pos by simp
    then show ?thesis using True by blast
  next
    case False
    then have "length A < nat H \<or> length B < nat H"
      using bad by auto
    then show ?thesis
    proof
      assume "length A < nat H"
      then have "length A \<in> set [0 ..< nat H]" by simp
      then show ?thesis by blast
    next
      assume "length B < nat H"
      then have "length B \<in> set [0 ..< nat H]" by simp
      then show ?thesis by blast
    qed
  qed
  then show "min_hashing A B S H M = Inl IndexError \<or> min_hashing A B S H M = Inl ZeroDivisionError"
    unfolding min_hashing_def using ne by (rule signatures_loop_error [rotated])
qed

theorem min_hashing_length_witness:
  "min_hashing [2, 5, 7] [1, 0, 4] {|3, 4|} 3 4294967295 = Inr [Some 7, Some 15, Some 25]
   \<and> length [Some (7 :: int), Some 15, Some 25] = nat 3
   \<and> min_hashing [] [] {||} 3 0 = Inr [None, None, None]
   \<and> min_hashing [1] [2] {|5|} 1 0 = Inl ZeroDivisionError"
proof (intro conjI)
  have "\<exists>sig. min_hashing [2, 5, 7] [1, 0, 4] {|3, 4|} 3 4294967295 = Inr sig \<and> length sig = nat 3"
    using min_hashing_length [where S = "{|3, 4|}" and H = 3 and M = 4294967295
        and A = "[2, 5, 7]" and B = "[1, 0, 4]"]
    by simp
  moreover have "min_hashing [2, 5, 7] [1, 0, 4] {|3, 4|} 3 4294967295
      = Inr [Some 7, Some 15, Some 25]"
    by (simp add: min_hashing_def upt3 sorted_list_of_fset.rep_eq)
  ultimately show "min_hashing [2, 5, 7] [1, 0, 4] {|3, 4|} 3 4294967295
      = Inr [Some 7, Some 15, Some 25]"
    by simp
  show "length [Some (7 :: int), Some 15, Some 25] = nat 3"
    by simp
  have "\<exists>sig. min_hashing [] [] {||} 3 0 = Inr sig \<and> length sig = nat 3"
    using min_hashing_length [where S = "{||}" and H = 3 and M = 0 and A = "[]" and B = "[]"]
    by simp
  then obtain sig where sig: "min_hashing [] [] {||} 3 0 = Inr sig" "length sig = nat 3"
    by blast
  have "min_hashing [] [] {||} 3 0 = Inr (replicate (nat 3) None)"
    unfolding min_hashing_def signatures_loop_empty by simp
  then show "min_hashing [] [] {||} 3 0 = Inr [None, None, None]"
    using sig by (simp add: eval_nat_numeral)
  have "min_hashing [1] [2] {|5|} 1 0 = Inl IndexError
      \<or> min_hashing [1] [2] {|5|} 1 0 = Inl ZeroDivisionError"
    using min_hashing_length [where S = "{|5|}" and H = 1 and M = 0 and A = "[1]" and B = "[2]"]
    by simp
  moreover have "min_hashing [1] [2] {|5|} 1 0 \<noteq> Inl IndexError"
    by (simp add: min_hashing_def sorted_list_of_fset.rep_eq)
  ultimately show "min_hashing [1] [2] {|5|} 1 0 = Inl ZeroDivisionError"
    by blast
qed

text \<open>
  The claim C10 itself fails: on a non-empty shingle set, a hash family whose first list
  holds fewer than \<open>H\<close> coefficients makes the builder raise.
\<close>

theorem min_hashing_short_family:
  "min_hashing [1] [0, 3] {|1, 2|} 2 4294967295 = Inl IndexError"
  by (simp add: min_hashing_def upt_rec sorted_list_of_fset.rep_eq)

subsection \<open>The signature comparator\<close>

text \<open>
  C8: for every pair of signatures of unequal length the comparator raises
  \<^verbatim>\<open>AssertionError\<close>: the check precedes every access to an element, and no score is
  returned.
\<close>

theorem compare_signatures_length_mismatch:
  "length sig1 \<noteq> length sig2 \<Longrightarrow> compare_signatures sig1 sig2 = Inl AssertionError"
  by (simp add: compare_signatures_def)

theorem compare_signatures_length_mismatch_witness:
  "length [Some (1::int)] \<noteq> length [Some (1::int), Some 2]
   \<and> compare_signatures [Some 1] [Some 1, Some 2] = Inl AssertionError"
  using compare_signatures_length_mismatch [of "[Some 1]" "[Some 1, Some 2]"]
  by simp

lemma compare_signatures_values:
  assumes "None \<notin> set sig1" "None \<notin> set sig2" "length sig1 = length sig2"
  shows "compare_signatures sig1 sig2 =
     py_truediv (card (the ` set sig1 \<inter> the ` set sig2)) (length sig1)"
  using assms by (simp add: compare_signatures_def intersect1d_def)

lemma compare_signatures_None:
  assumes "None \<in> set sig1 \<union> set sig2" "length sig1 = length sig2" "sig1 \<noteq> []"
  shows "compare_signatures sig1 sig2 = Inl TypeError"
proof -
  have "2 \<le> length sig1 + length sig2"
    using assms(2,3) by (cases sig1) auto
  then show ?thesis
    using assms by (simp add: compare_signatures_def intersect1d_def)
qed

lemma card_the_distinct:
  assumes "None \<notin> set sig" "distinct sig"
  shows "card (the ` set sig) = length sig"
proof -
  have "inj_on the (set sig)"
    using assms(1) by (intro inj_onI) (metis option.collapse)
  then have "card (the ` set sig) = card (set sig)"
    by (rule card_image)
  then show ?thesis
    using assms(2) by (simp add: distinct_card)
qed

lemma compare_signatures_same:
  assumes "None \<notin> set sig" "distinct sig" "sig \<noteq> []"
  shows "compare_signatures sig sig = Inr 1"
  using assms by (simp add: compare_signatures_values card_the_distinct py_truediv_def)

subsection \<open>Two documents end to end\<close>

lemma crc32_ab: "crc32_encode ''ab'' = 2659403885"
  by (simp add: crc32_encode_def crc32_def encode_def crc_byte_def crc_step_def funpow8)

lemma crc32_ba: "crc32_encode ''ba'' = 749160980"
  by (simp add: crc32_encode_def crc32_def encode_def crc_byte_def crc_step_def funpow8)

lemma shingling_ab: "shingling crc32_encode ''ab'' 2 = {|2659403885|}"
  by (simp add: shingling_def py_slice_def crc32_ab)

lemma shingling_ba: "shingling crc32_encode ''ba'' 2 = {|749160980|}"
  by (simp add: shingling_def py_slice_def crc32_ba)

lemma upt2: "[0..<2] = [0, 1]"
  by (simp add: upt_rec)

lemma sorted_list_of_fset_single: "sorted_list_of_fset {|x|} = [x]"
  by (simp add: sorted_list_of_fset.rep_eq)

text \<open>
  C1 asks for the fraction of positions at which the two signatures agree. The comparator
  counts the values the two signatures have in common instead. For the documents \<open>ab\<close>
  and \<open>ba\<close> with \<open>k = 2\<close> and the hash family \<open>A = [1, M - 1]\<close>, \<open>B = [0, 3408564865]\<close>,
  \<open>M = 2^32 - 1\<close>, the signatures hold the same two values in opposite order: they agree
  at no position, and the comparator returns \<open>1\<close>.
\<close>

theorem compare_signatures_not_positional:
  "min_hashing [1, 4294967294] [0, 3408564865] (shingling crc32_encode ''ab'' 2) 2 4294967295
     = Inr [Some 2659403885, Some 749160980]
   \<and> min_hashing [1, 4294967294] [0, 3408564865] (shingling crc32_encode ''ba'' 2) 2 4294967295
     = Inr [Some 749160980, Some 2659403885]
   \<and> compare_signatures [Some 2659403885, Some 749160980] [Some 749160980, Some 2659403885]
     = Inr 1
   \<and> positional_agreement [Some 2659403885, Some 749160980] [Some 749160980, Some 2659403885]
     = 0"
proof (intro conjI)
  show "min_hashing [1, 4294967294] [0, 3408564865] (shingling crc32_encode ''ab'' 2) 2 4294967295
     = Inr [Some 2659403885, Some 749160980]"
    by (simp add: shingling_ab min_hashing_def upt2 sorted_list_of_fset_single)
  show "min_hashing [1, 4294967294] [0, 3408564865] (shingling crc32_encode ''ba'' 2) 2 4294967295
     = Inr [Some 749160980, Some 2659403885]"
    by (simp add: shingling_ba min_hashing_def upt2 sorted_list_of_fset_single)
  show "compare_signatures [Some 2659403885, Some 749160980] [Some 749160980, Some 2659403885]
     = Inr 1"
    by (simp add: compare_signatures_def intersect1d_def py_truediv_def)
  show "positional_agreement [Some 2659403885, Some 749160980] [Some 749160980, Some 2659403885]
     = 0"
    by (simp add: positional_agreement_def upt2)
qed

lemma shingling_nonempty:
  assumes "k \<le> int (length s)"
  shows "shingling crc s k \<noteq> {||}"
proof -
  have "0 |\<in>| fset_of_list [0 ..< nat (int (length s) - k + 1)]"
    using assms by (simp add: fset_of_list_elem)
  then show ?thesis
    unfolding shingling_image by blast
qed

lemma compare_sets_same: "S \<noteq> {||} \<Longrightarrow> compare_sets S S = Inr 1"
  by (simp add: compare_sets_def py_truediv_def)

text \<open>
  C2, as the code has it: for two identical documents of at least \<open>k\<close> characters, the same
  \<open>k\<close> and the same hash family (at least \<open>H\<close> coefficients each, modulus other than \<open>0\<close>),
  the two shingle sets are identical, the two signatures are identical, the exact Jaccard
  similarity is \<open>1\<close>, and the comparator returns \<open>1\<close> when \<open>H \<ge> 1\<close> and the components of
  the signature are pairwise distinct.
\<close>

theorem identical_documents:
  assumes "d1 = d2" and "k \<le> int (length d1)"
    and "M \<noteq> 0" and "nat H \<le> length A" and "nat H \<le> length B"
  shows "shingling crc d1 k = shingling crc d2 k
    \<and> min_hashing A B (shingling crc d1 k) H M = min_hashing A B (shingling crc d2 k) H M
    \<and> compare_sets (shingling crc d1 k) (shingling crc d2 k) = Inr 1
    \<and> (\<exists>sig1 sig2.
          min_hashing A B (shingling crc d1 k) H M = Inr sig1
        \<and> min_hashing A B (shingling crc d2 k) H M = Inr sig2
        \<and> sig1 = sig2
        \<and> (1 \<le> H \<and> distinct sig1 \<longrightarrow> compare_signatures sig1 sig2 = Inr 1))"
proof -
  let ?S = "shingling crc d1 k"
  have ne: "?S \<noteq> {||}"
    using assms(2) by (rule shingling_nonempty)
  have idx: "\<forall>i \<in> set [0 ..< nat H]. i < length A \<and> i < length B"
    using assms(4,5) by auto
  define sig where "sig = map (\<lambda>i. Some (Min ((\<lambda>x. (A ! i * x + B ! i) mod M) ` fset ?S))) [0 ..< nat H]"
  have mh: "min_hashing A B ?S H M = Inr sig"
    unfolding min_hashing_def sig_def using ne assms(3) idx by (simp add: signatures_loop_ok)
  have noNone: "None \<notin> set sig"
    by (auto simp: sig_def)
  have "compare_signatures sig sig = Inr 1" if "1 \<le> H" "distinct sig"
  proof -
    have "sig \<noteq> []" using that(1) by (simp add: sig_def)
    then show ?thesis
      using noNone that(2) by (rule compare_signatures_same [rotated 2])
  qed
  then show ?thesis
    using assms(1) ne mh by (simp add: compare_sets_same)
qed

theorem identical_documents_witness:
  "''ab'' = ''ab'' \<and> 2 \<le> int (length ''ab'') \<and> (4294967295 :: int) \<noteq> 0
   \<and> nat 2 \<le> length [1, 4294967294 :: int] \<and> nat 2 \<le> length [0, 3408564865 :: int]
   \<and> compare_sets (shingling crc32_encode ''ab'' 2) (shingling crc32_encode ''ab'' 2) = Inr 1
   \<and> min_hashing [1, 4294967294] [0, 3408564865] (shingling crc32_encode ''ab'' 2) 2 4294967295
       = Inr [Some 2659403885, Some 749160980]
   \<and> distinct [Some (2659403885 :: int), Some 749160980]
   \<and> compare_signatures [Some 2659403885, Some 749160980] [Some 2659403885, Some 749160980] = Inr 1"
proof -
  have mh: "min_hashing [1, 4294967294] [0, 3408564865] (shingling crc32_encode ''ab'' 2) 2 4294967295
       = Inr [Some 2659403885, Some 749160980]"
    by (simp add: shingling_ab min_hashing_def upt2 sorted_list_of_fset_single)
  show ?thesis
    using identical_documents [where ?d1.0 = "''ab''" and ?d2.0 = "''ab''" and k = 2
        and M = 4294967295 and H = 2 and A = "[1, 4294967294]" and B = "[0, 3408564865]"
        and crc = crc32_encode]
    by (simp add: mh)
qed

text \<open>
  The claim C2 itself fails: a document shorter than \<open>k\<close> has an empty shingle set, on which
  the exact similarity raises; and a signature in which a value occurs twice is compared
  with itself to less than \<open>1\<close>.
\<close>

theorem identical_documents_counterexample:
  "compare_sets (shingling crc32_encode ''ab'' 5) (shingling crc32_encode ''ab'' 5)
     = Inl ZeroDivisionError
   \<and> min_hashing [1, 2] [2659403885, 0] (shingling crc32_encode ''ab'' 2) 2 4294967295
     = Inr [Some 1023840475, Some 1023840475]
   \<and> compare_signatures [Some 1023840475, Some 1023840475] [Some 1023840475, Some 1023840475]
     = Inr (1 / 2)"
proof (intro conjI)
  show "compare_sets (shingling crc32_encode ''ab'' 5) (shingling crc32_encode ''ab'' 5)
     = Inl ZeroDivisionError"
    by (simp add: shingling_def compare_sets_def py_truediv_def)
  show "min_hashing [1, 2] [2659403885, 0] (shingling crc32_encode ''ab'' 2) 2 4294967295
     = Inr [Some 1023840475, Some 1023840475]"
    by (simp add: shingling_ab min_hashing_def upt2 sorted_list_of_fset_single)
  show "compare_signatures [Some 1023840475, Some 1023840475] [Some 1023840475, Some 1023840475]
     = Inr (1 / 2)"
    by (simp add: compare_signatures_def intersect1d_def py_truediv_def)
qed

text \<open>
  C3, as the code has it: for a document shorter than \<open>k\<close> the shingle set is empty and the
  signature builder returns, without an error, a signature whose \<open>H\<close> components are all
  \<^verbatim>\<open>None\<close>. The comparator has no check for it: for \<open>H \<ge> 1\<close>, comparing such a signature
  with any signature of the same length returns no score, as the sort inside
  \<^verbatim>\<open>np.intersect1d\<close> raises \<^verbatim>\<open>TypeError\<close>.
\<close>

theorem empty_shingle_set_signature:
  assumes "int (length s) < k"
  shows "shingling crc s k = {||}
    \<and> min_hashing A B (shingling crc s k) H M = Inr (replicate (nat H) None)
    \<and> (1 \<le> H \<and> length other = nat H \<longrightarrow>
          compare_signatures (replicate (nat H) None) other = Inl TypeError
        \<and> compare_signatures other (replicate (nat H) None) = Inl TypeError)"
proof -
  have empty: "shingling crc s k = {||}"
    using assms by (simp add: shingling_def)
  have mh: "min_hashing A B {||} H M = Inr (replicate (nat H) None)"
    by (simp add: min_hashing_def signatures_loop_empty)
  have cmp: "compare_signatures (replicate (nat H) None) other = Inl TypeError
        \<and> compare_signatures other (replicate (nat H) None) = Inl TypeError"
    if "1 \<le> H" "length other = nat H"
  proof -
    have pos: "0 < nat H" using that(1) by simp
    then have "None \<in> set (replicate (nat H) (None :: int option))" by simp
    moreover have "replicate (nat H) (None :: int option) \<noteq> []" "other \<noteq> []"
      using pos that(2) by auto
    ultimately show ?thesis
      using that(2) by (simp add: compare_signatures_None del: set_replicate)
  qed
  show ?thesis
    using empty mh cmp by simp
qed

theorem empty_shingle_set_signature_witness:
  "int (length ''ab'') < 5
   \<and> shingling crc32_encode ''ab'' 5 = {||}
   \<and> min_hashing [1, 2] [3, 4] (shingling crc32_encode ''ab'' 5) 2 4294967295 = Inr [None, None]
   \<and> compare_signatures [None, None] [Some 1, Some 2] = Inl TypeError"
  using empty_shingle_set_signature [where s = "''ab''" and k = 5 and H = 2
      and other = "[Some 1, Some 2]" and crc = crc32_encode and A = "[1, 2]" and B = "[3, 4]"
      and M = 4294967295]
  by (auto simp: eval_nat_numeral)

text \<open>The claim C3 itself fails: the builder does return the missing value as a component.\<close>

theorem empty_shingle_set_sentinel:
  "min_hashing [1, 2] [3, 4] (shingling crc32_encode ''ab'' 5) 2 4294967295 = Inr [None, None]"
  by (simp add: shingling_def min_hashing_def upt2 sorted_list_of_fset.rep_eq)

subsection \<open>The hash family generator\<close>

lemma resample_in: "r |\<in>| tmp \<Longrightarrow> resample tmp r rng = resample tmp (shd rng) (stl rng)"
  by (subst resample.simps) simp

lemma resample_notin: "r |\<notin>| tmp \<Longrightarrow> resample tmp r rng = Some (r, rng)"
  by (subst resample.simps) simp

lemma resample_first_fresh:
  assumes "r |\<in>| tmp" "rng !! n |\<notin>| tmp" "\<forall>m<n. rng !! m |\<in>| tmp"
  shows "resample tmp r rng = Some (rng !! n, sdrop (Suc n) rng)"
  using assms
proof (induction n arbitrary: r rng)
  case 0
  then show ?case
    by (simp add: resample_in resample_notin)
next
  case (Suc n)
  have "shd rng |\<in>| tmp"
    using Suc.prems(3) by (metis snth.simps(1) zero_less_Suc)
  moreover have "stl rng !! n |\<notin>| tmp"
    using Suc.prems(2) by simp
  moreover have "\<forall>m<n. stl rng !! m |\<in>| tmp"
    using Suc.prems(3) by (metis Suc_less_eq snth.simps(2))
  ultimately have "resample tmp (shd rng) (stl rng) = Some (stl rng !! n, sdrop (Suc n) (stl rng))"
    by (rule Suc.IH)
  then show ?case
    using Suc.prems(1) by (simp add: resample_in)
qed

lemma resample_Some_fresh:
  assumes "resample tmp r rng = Some y"
  shows "r |\<notin>| tmp \<or> (\<exists>n. rng !! n |\<notin>| tmp)"
proof (rule resample.raw_induct
    [where P = "\<lambda>tmp r rng y. r |\<notin>| tmp \<or> (\<exists>n. rng !! n |\<notin>| tmp)", OF _ assms])
  fix f :: "int fset \<Rightarrow> int \<Rightarrow> int stream \<Rightarrow> (int \<times> int stream) option"
  fix tmp r rng y
  assume IH: "\<And>tmp r rng y. f tmp r rng = Some y \<Longrightarrow> r |\<notin>| tmp \<or> (\<exists>n. rng !! n |\<notin>| tmp)"
    and eq: "(if r |\<in>| tmp then f tmp (shd rng) (stl rng) else Some (r, rng)) = Some y"
  show "r |\<notin>| tmp \<or> (\<exists>n. rng !! n |\<notin>| tmp)"
  proof (cases "r |\<in>| tmp")
    case True
    then have "f tmp (shd rng) (stl rng) = Some y"
      using eq by simp
    then have "shd rng |\<notin>| tmp \<or> (\<exists>n. stl rng !! n |\<notin>| tmp)"
      by (rule IH)
    then show ?thesis
      by (metis snth.simps(1) snth.simps(2))
  next
    case False
    then show ?thesis by simp
  qed
qed

lemma resample_None_iff:
  "resample tmp r rng = None \<longleftrightarrow> r |\<in>| tmp \<and> (\<forall>n. rng !! n |\<in>| tmp)"
proof
  assume none: "resample tmp r rng = None"
  have "r |\<in>| tmp"
    using none by (cases "r |\<in>| tmp") (simp_all add: resample_notin)
  moreover have "rng !! n |\<in>| tmp" for n
  proof (rule ccontr)
    assume "rng !! n |\<notin>| tmp"
    then obtain n0 where "rng !! n0 |\<notin>| tmp" "\<forall>m<n0. rng !! m |\<in>| tmp"
      using exists_least_iff [of "\<lambda>n. rng !! n |\<notin>| tmp"] by blast
    then have "resample tmp r rng = Some (rng !! n0, sdrop (Suc n0) rng)"
      using \<open>r |\<in>| tmp\<close> by (simp add: resample_first_fresh)
    then show False using none by simp
  qed
  ultimately show "r |\<in>| tmp \<and> (\<forall>n. rng !! n |\<in>| tmp)" by simp
next
  assume stuck: "r |\<in>| tmp \<and> (\<forall>n. rng !! n |\<in>| tmp)"
  show "resample tmp r rng = None"
  proof (cases "resample tmp r rng")
    case None
    then show ?thesis .
  next
    case (Some y)
    then show ?thesis
      using resample_Some_fresh [OF Some] stuck by blast
  qed
qed

lemma generate_loop_no_error:
  "0 \<le> M \<Longrightarrow> generate_loop M n tmp lst rng \<noteq> Some (Inl e)"
  by (induction n arbitrary: tmp lst rng) (auto simp: Let_def split: option.splits)

lemma generate_loop_returns:
  assumes "0 \<le> M" "fcard tmp + n \<le> N"
    and "\<forall>T :: int fset. fcard T < N \<longrightarrow> (\<forall>j. \<exists>i\<ge>j. rng !! i |\<notin>| T)"
  shows "\<exists>res rest. generate_loop M n tmp lst rng = Some (Inr (lst @ res, rest)) \<and> length res = n"
  using assms
proof (induction n arbitrary: tmp lst rng)
  case 0
  then show ?case by simp
next
  case (Suc n)
  have fresh_tl: "\<forall>T :: int fset. fcard T < N \<longrightarrow> (\<forall>j. \<exists>i\<ge>j. sdrop d rng !! i |\<notin>| T)" for d
  proof (intro allI impI)
    fix T :: "int fset" and j
    assume "fcard T < N"
    then obtain i where "d + j \<le> i" "rng !! i |\<notin>| T"
      using Suc.prems(3) by blast
    then have "j \<le> i - d" "sdrop d rng !! (i - d) |\<notin>| T"
      by (simp_all add: sdrop_snth)
    then show "\<exists>i\<ge>j. sdrop d rng !! i |\<notin>| T" by blast
  qed
  show ?case
  proof (cases "shd rng |\<in>| tmp")
    case False
    have "fcard (finsert (shd rng) tmp) + n \<le> N"
      using Suc.prems(2) False by (simp add: fcard_finsert_disjoint)
    moreover have "\<forall>T :: int fset. fcard T < N \<longrightarrow> (\<forall>j. \<exists>i\<ge>j. stl rng !! i |\<notin>| T)"
      using fresh_tl [of 1] by simp
    ultimately obtain res rest where
      "generate_loop M n (finsert (shd rng) tmp) (lst @ [shd rng]) (stl rng)
         = Some (Inr ((lst @ [shd rng]) @ res, rest))" "length res = n"
      using Suc.IH [OF Suc.prems(1)] by blast
    then have "generate_loop M (Suc n) tmp lst rng = Some (Inr (lst @ (shd rng # res), rest))
        \<and> length (shd rng # res) = Suc n"
      using False Suc.prems(1) by (simp add: Let_def)
    then show ?thesis by blast
  next
    case True
    have "fcard tmp < N" using Suc.prems(2) by simp
    then obtain i where "stl rng !! i |\<notin>| tmp"
      using fresh_tl [of 1] by auto
    then obtain n0 where n0: "stl rng !! n0 |\<notin>| tmp" "\<forall>m<n0. stl rng !! m |\<in>| tmp"
      using exists_least_iff [of "\<lambda>n. stl rng !! n |\<notin>| tmp"] by blast
    have rs: "resample tmp (shd rng) (stl rng) = Some (stl rng !! n0, sdrop (Suc n0) (stl rng))"
      using True n0 by (rule resample_first_fresh)
    have "fcard tmp + n \<le> N" using Suc.prems(2) by simp
    moreover have "\<forall>T :: int fset. fcard T < N \<longrightarrow> (\<forall>j. \<exists>i\<ge>j. sdrop (Suc n0) (stl rng) !! i |\<notin>| T)"
      using fresh_tl [of "Suc (Suc n0)"] by simp
    ultimately obtain res rest where
      "generate_loop M n tmp (lst @ [stl rng !! n0]) (sdrop (Suc n0) (stl rng))
         = Some (Inr ((lst @ [stl rng !! n0]) @ res, rest))" "length res = n"
      using Suc.IH [OF Suc.prems(1)] by blast
    then have "generate_loop M (Suc n) tmp lst rng = Some (Inr (lst @ (stl rng !! n0 # res), rest))
        \<and> length (stl rng !! n0 # res) = Suc n"
      using True Suc.prems(1) rs by (simp add: Let_def)
    then show ?thesis by blast
  qed
qed

text \<open>
  C4 asks that the returned list holds no value twice. The value found by resampling is
  appended to the list and not added to \<open>tmp\<close>, so a later draw of the same value is taken
  as new: when \<^verbatim>\<open>randint\<close> returns \<open>5, 5, 7, 7\<close>, the list is \<open>[5, 7, 7]\<close>.
\<close>

theorem generator_duplicate_list:
  "generate_random_coefficient 4294967295 3 (5 ## 5 ## 7 ## 7 ## sconst 0)
     = Some (Inr ([5, 7, 7], sconst 0))
   \<and> \<not> distinct [5, 7, 7 :: int]"
  by (simp add: generate_random_coefficient_def eval_nat_numeral resample_in resample_notin)

text \<open>
  C6, as the code has it: the resampling loop has no bound and reports no error. It does not
  return exactly when the duplicate draw and every later draw are in \<open>tmp\<close>; otherwise it
  returns the first later draw outside \<open>tmp\<close>. The generator raises nothing for
  \<open>max_hash_value \<ge> 0\<close>, and it returns a list of \<open>H\<close> values whenever the draws, from any
  point on, leave every set of fewer than \<open>H\<close> values.
\<close>

theorem resample_unbounded:
  "(resample tmp r rng = None \<longleftrightarrow> r |\<in>| tmp \<and> (\<forall>n. rng !! n |\<in>| tmp))
   \<and> (r |\<in>| tmp \<and> rng !! n |\<notin>| tmp \<and> (\<forall>m<n. rng !! m |\<in>| tmp)
        \<longrightarrow> resample tmp r rng = Some (rng !! n, sdrop (Suc n) rng))
   \<and> (0 \<le> M \<longrightarrow> generate_random_coefficient M H rng \<noteq> Some (Inl e))
   \<and> (0 \<le> M \<and> (\<forall>T :: int fset. fcard T < nat H \<longrightarrow> (\<forall>j. \<exists>i\<ge>j. rng !! i |\<notin>| T))
        \<longrightarrow> (\<exists>lst rest. generate_random_coefficient M H rng = Some (Inr (lst, rest))
              \<and> length lst = nat H))"
proof (intro conjI impI)
  show "resample tmp r rng = None \<longleftrightarrow> r |\<in>| tmp \<and> (\<forall>n. rng !! n |\<in>| tmp)"
    by (rule resample_None_iff)
next
  assume "r |\<in>| tmp \<and> rng !! n |\<notin>| tmp \<and> (\<forall>m<n. rng !! m |\<in>| tmp)"
  then have "r |\<in>| tmp" "rng !! n |\<notin>| tmp" "\<forall>m<n. rng !! m |\<in>| tmp"
    by simp_all
  then show "resample tmp r rng = Some (rng !! n, sdrop (Suc n) rng)"
    by (rule resample_first_fresh)
next
  assume "0 \<le> M"
  then show "generate_random_coefficient M H rng \<noteq> Some (Inl e)"
    unfolding generate_random_coefficient_def by (rule generate_loop_no_error)
next
  assume a: "0 \<le> M \<and> (\<forall>T :: int fset. fcard T < nat H \<longrightarrow> (\<forall>j. \<exists>i\<ge>j. rng !! i |\<notin>| T))"
  have "fcard ({||} :: int fset) + nat H \<le> nat H" by simp
  then obtain res rest where
    "generate_loop M (nat H) {||} [] rng = Some (Inr ([] @ res, rest))" "length res = nat H"
    using generate_loop_returns [of M "{||}" "nat H" "nat H" rng "[]"] a by blast
  then show "\<exists>lst rest. generate_random_coefficient M H rng = Some (Inr (lst, rest))
              \<and> length lst = nat H"
    by (simp add: generate_random_coefficient_def)
qed

theorem resample_unbounded_witness:
  "resample {|5|} 5 (5 ## 7 ## sconst 0) = Some (7, sconst 0)
   \<and> resample {|0|} 0 (sconst 0) = None
   \<and> (\<exists>lst rest. generate_random_coefficient 1 2 (smap (\<lambda>n. int (n mod 2)) nats)
          = Some (Inr (lst, rest)) \<and> length lst = 2)"
proof (intro conjI)
  show "resample {|5|} 5 (5 ## 7 ## sconst 0) = Some (7, sconst 0)"
    using resample_unbounded [where tmp = "{|5|}" and r = 5 and rng = "5 ## 7 ## sconst 0"
        and n = 1]
    by simp
  show "resample {|0|} 0 (sconst 0) = None"
    using resample_unbounded [where tmp = "{|0|}" and r = 0 and rng = "sconst 0"]
    by simp
  let ?rng = "smap (\<lambda>n. int (n mod 2)) nats"
  have fresh: "\<exists>i\<ge>j. ?rng !! i |\<notin>| T" if "fcard T < nat 2" for T :: "int fset" and j
  proof (cases "0 |\<in>| T")
    case False
    then have "?rng !! (2 * j) |\<notin>| T" by simp
    then show ?thesis
      by (metis le_add2 mult_2)
  next
    case True
    have "1 |\<notin>| T"
    proof
      assume "1 |\<in>| T"
      then have "{|0, 1|} |\<subseteq>| T" using True by simp
      then have "fcard {|0, 1 :: int|} \<le> fcard T" by (rule fcard_mono)
      then show False using that by (simp add: fcard_finsert_if)
    qed
    then have "?rng !! (2 * j + 1) |\<notin>| T" by simp
    then show ?thesis
      by (metis le_add2 mult_2 trans_le_add1)
  qed
  show "\<exists>lst rest. generate_random_coefficient 1 2 ?rng = Some (Inr (lst, rest)) \<and> length lst = 2"
    using resample_unbounded [where M = 1 and H = 2 and rng = ?rng] fresh
    by simp
qed

text \<open>
  The claim C6 itself fails: with \<open>max_hash_value = 0\<close> every draw is \<open>0\<close>, and the second
  round of the generator never ends.
\<close>

theorem generator_loops_forever:
  "generate_random_coefficient 0 2 (sconst 0) = None"
proof -
  have "resample {|0|} 0 (sconst 0) = None"
    by (simp add: resample_None_iff)
  then show ?thesis
    by (simp add: generate_random_coefficient_def eval_nat_numeral)
qed

end
